theory Spec2Isabelle
  imports Complex_Main "HOL-Library.Word" "HOL-Library.Sublist"
begin

section \<open>JavaScript strings\<close>

text \<open>
  A JavaScript string is a sequence of UTF-16 code units. \<open>String.prototype.split\<close>,
  \<open>String.prototype.trim\<close> and string equality all work on code units, so the model
  keeps them: a string is a list of 16-bit words. \<open>js\<close> embeds an ASCII literal.
\<close>

type_synonym code_unit = "16 word"
type_synonym jsstring = "code_unit list"

definition js :: "string \<Rightarrow> jsstring" where
  "js s = map of_char s"

text \<open>
  \<open>text.split(sep)\<close> for a separator that matches one fixed, non-empty literal: the
  text is scanned from the left; where the separator matches, the current fragment ends
  and scanning resumes behind the match; everywhere else the code unit joins the current
  fragment. The result always has at least one fragment. (An empty separator never
  matches here; the source only splits on a non-empty literal.)
\<close>

fun split :: "'a list \<Rightarrow> 'a list \<Rightarrow> 'a list list" where
  "split sep [] = [[]]"
| "split sep (c # cs) =
     (if sep \<noteq> [] \<and> prefix sep (c # cs)
      then [] # split sep (drop (length sep) (c # cs))
      else (case split sep cs of
              [] \<Rightarrow> [[c]]
            | p # ps \<Rightarrow> (c # p) # ps))"

text \<open>\<open>parts.join(sep)\<close>, the inverse the split is measured against.\<close>

fun join :: "'a list \<Rightarrow> 'a list list \<Rightarrow> 'a list" where
  "join sep [] = []"
| "join sep [p] = p"
| "join sep (p # q # ps) = p @ sep @ join sep (q # ps)"

text \<open>
  The number of matches of the separator in a text, as a global regular expression finds
  them: from the left, without overlap (\<open>text.match(/sep/g).length\<close>).
\<close>

fun count_matches :: "'a list \<Rightarrow> 'a list \<Rightarrow> nat" where
  "count_matches sep [] = 0"
| "count_matches sep (c # cs) =
     (if sep \<noteq> [] \<and> prefix sep (c # cs)
      then Suc (count_matches sep (drop (length sep) (c # cs)))
      else count_matches sep cs)"

text \<open>
  \<open>String.prototype.trim\<close> removes leading and trailing WhiteSpace and LineTerminator
  code units: TAB, LF, VT, FF, CR, SP, NBSP, the Unicode space separators (all in the
  basic plane), LS, PS and the byte order mark.
\<close>

definition is_ws :: "code_unit \<Rightarrow> bool" where
  "is_ws c \<longleftrightarrow>
     c = 0x9 \<or> c = 0xA \<or> c = 0xB \<or> c = 0xC \<or> c = 0xD \<or> c = 0x20 \<or> c = 0xA0 \<or>
     c = 0x1680 \<or> (0x2000 \<le> c \<and> c \<le> 0x200A) \<or> c = 0x2028 \<or> c = 0x2029 \<or>
     c = 0x202F \<or> c = 0x205F \<or> c = 0x3000 \<or> c = 0xFEFF"

definition trim :: "jsstring \<Rightarrow> jsstring" where
  "trim s = rev (dropWhile is_ws (rev (dropWhile is_ws s)))"

section \<open>Content renderer: \<open>parseQuestionContent\<close>\<close>

text \<open>
  \<^verbatim>\<open>
  export function parseQuestionContent(text) {
      if (!text) return null;
      const parts = text.split(/"""CODE"""/g);
      return (
          <div className="space-y-4">
              {parts.map((part, index) => {
                  if (index % 2 === 1) {
                      return (<pre key={index} className="code-block">
                                <code>{part.trim()}</code></pre>);
                  }
                  return part.trim() && (
                      <div key={index} className="whitespace-pre-wrap">{part.trim()}</div>);
              })}
          </div>);
  }
  \<close>
  The argument is \<open>None\<close> for a missing text (\<open>null\<close>, \<open>undefined\<close>) and
  \<open>Some t\<close> for a string. The result is \<open>None\<close> for \<open>null\<close> and otherwise the
  children of the returned container, one per fragment: a \<open>pre\<close> element, a \<open>div\<close>
  element, or the empty string that \<open>part.trim() && ...\<close> evaluates to when the
  trimmed fragment is empty.
\<close>

definition CODE_MARKER :: jsstring where
  \<open>CODE_MARKER = js ''"""CODE"""''\<close>

datatype node = Pre nat jsstring | Div nat jsstring | EmptyString

text \<open>The callback of \<open>parts.map\<close>, applied to a fragment and its index.\<close>

definition render_part :: "jsstring \<Rightarrow> nat \<Rightarrow> node" where
  "render_part part index =
     (if index mod 2 = 1 then Pre index (trim part)
      else if trim part = [] then EmptyString
      else Div index (trim part))"

definition parseQuestionContent :: "jsstring option \<Rightarrow> node list option" where
  "parseQuestionContent text =
     (case text of
        None \<Rightarrow> None
      | Some t \<Rightarrow>
          if t = [] then None
          else Some (map (\<lambda>(index, part). render_part part index)
                         (enumerate 0 (split CODE_MARKER t))))"

text \<open>
  What is displayed: React renders nothing for \<open>null\<close> and nothing for an empty-string
  child; a \<open>pre\<close> child is a code segment and a \<open>div\<close> child a prose segment.
\<close>

datatype kind = prose | code

fun segment_of :: "node \<Rightarrow> (kind \<times> jsstring) option" where
  "segment_of (Pre key content) = Some (code, content)"
| "segment_of (Div key content) = Some (prose, content)"
| "segment_of EmptyString = None"

definition segments :: "node list option \<Rightarrow> (kind \<times> jsstring) list" where
  "segments r = (case r of None \<Rightarrow> [] | Some ns \<Rightarrow> List.map_filter segment_of ns)"

section \<open>Results payload and performance message\<close>

text \<open>
  The results payload is the JSON object the \<open>/api/results\<close> endpoint answers with;
  both frontends read its \<open>score\<close>, \<open>total\<close> and \<open>percentage\<close>. A JavaScript number
  is modelled as a real or \<open>NaN\<close>; \<open>x >= c\<close> is false when \<open>x\<close> is \<open>NaN\<close> (which is
  also what a missing field compares as).
\<close>

datatype jsnumber = Number real | NaN

fun ge :: "jsnumber \<Rightarrow> real \<Rightarrow> bool" where
  "ge (Number x) c = (c \<le> x)"
| "ge NaN c = False"

record 'n results_payload =
  score :: 'n
  total :: 'n
  percentage :: 'n

text \<open>The four message literals; each ends in an emoji, a surrogate pair in UTF-16.\<close>

definition excellent_work :: jsstring where
  "excellent_work = js ''Excellent work! '' @ [0xD83C, 0xDF1F]"

definition good_job :: jsstring where
  "good_job = js ''Good job! '' @ [0xD83D, 0xDC4D]"

definition not_bad :: jsstring where
  "not_bad = js ''Not bad! Keep practicing. '' @ [0xD83D, 0xDCDA]"

definition keep_studying :: jsstring where
  "keep_studying = js ''Keep studying! You'll do better next time. '' @ [0xD83D, 0xDCAA]"

text \<open>
  \<open>showResults\<close> in \<open>static/script.js\<close>:
  \<^verbatim>\<open>
  let message;
  if (data.percentage >= 90) { message = "Excellent work! ..."; }
  else if (data.percentage >= 70) { message = "Good job! ..."; }
  else if (data.percentage >= 50) { message = "Not bad! Keep practicing. ..."; }
  else { message = "Keep studying! You'll do better next time. ..."; }
  \<close>
\<close>

definition showResults_message :: "jsnumber results_payload \<Rightarrow> jsstring" where
  "showResults_message data =
     (if ge (percentage data) 90 then excellent_work
      else if ge (percentage data) 70 then good_job
      else if ge (percentage data) 50 then not_bad
      else keep_studying)"

text \<open>
  \<open>ResultsScreen\<close> in \<open>ResultsScreen.jsx\<close> chooses the message together with a colour
  class; the result is the pair \<open>(message, colorClass)\<close>.
\<close>

definition ResultsScreen_message :: "jsnumber results_payload \<Rightarrow> jsstring \<times> jsstring" where
  "ResultsScreen_message results =
     (if ge (percentage results) 90 then (excellent_work, js ''text-yellow-500'')
      else if ge (percentage results) 70 then (good_job, js ''text-green-500'')
      else if ge (percentage results) 50 then (not_bad, js ''text-blue-500'')
      else (keep_studying, js ''text-gray-500''))"

text \<open>The threshold table as the specification words it, for comparison.\<close>

definition message_by_threshold :: "jsnumber \<Rightarrow> jsstring" where
  "message_by_threshold p =
     (case p of
        NaN \<Rightarrow> keep_studying
      | Number x \<Rightarrow>
          if 90 \<le> x then excellent_work
          else if 70 \<le> x \<and> x < 90 then good_job
          else if 50 \<le> x \<and> x < 70 then not_bad
          else keep_studying)"

section \<open>History log\<close>

text \<open>
  A history entry is the object literal both frontends build:
  \<open>{date, score, total, percentage, duration}\<close>. The log lives in \<open>localStorage\<close>
  under the key \<open>quizHistory\<close> as a JSON array; the model keeps the decoded array, and
  \<open>None\<close> when the key is absent.
\<close>

record 'n history_entry = "'n results_payload" +
  date :: jsstring
  duration :: jsstring

type_synonym 'n storage = "'n history_entry list option"

text \<open>\<open>JSON.parse(localStorage.getItem('quizHistory') || '[]')\<close>\<close>

definition read_history :: "'n storage \<Rightarrow> 'n history_entry list" where
  "read_history st = (case st of None \<Rightarrow> [] | Some h \<Rightarrow> h)"

text \<open>
  \<open>Math.round\<close> rounds to the nearest integer, halves towards \<open>+\<infinity>\<close>; \<open>a % b\<close>
  truncates towards zero (the result has the sign of \<open>a\<close>); a template literal prints
  an integer in decimal, with a minus sign when negative.
\<close>

definition Math_round :: "real \<Rightarrow> int" where
  "Math_round x = \<lfloor>x + 1 / 2\<rfloor>"

definition js_rem :: "int \<Rightarrow> int \<Rightarrow> int" where
  "js_rem a b = sgn a * (\<bar>a\<bar> mod \<bar>b\<bar>)"

function show_nat :: "nat \<Rightarrow> jsstring" where
  "show_nat n =
     (if n < 10 then [of_nat (48 + n)]
      else show_nat (n div 10) @ [of_nat (48 + n mod 10)])"
  by pat_completeness auto
termination
  by (relation "measure id") auto

declare show_nat.simps [simp del]

definition show_int :: "int \<Rightarrow> jsstring" where
  "show_int i = (if i < 0 then js ''-'' @ show_nat (nat (- i)) else show_nat (nat i))"

text \<open>
  \<open>saveQuizToHistory\<close> in \<open>static/script.js\<close>:
  \<^verbatim>\<open>
  function saveQuizToHistory(data) {
      const history = JSON.parse(localStorage.getItem('quizHistory') || '[]');
      const quizTime = quizStartTime ? Math.round((Date.now() - quizStartTime) / 1000) : 0;
      const minutes = Math.floor(quizTime / 60);
      const seconds = quizTime % 60;
      const entry = { date: new Date().toISOString(), score: data.score, total: data.total,
                      percentage: data.percentage, duration: `${minutes}m ${seconds}s` };
      history.unshift(entry);
      if (history.length > 20) { history.pop(); }
      localStorage.setItem('quizHistory', JSON.stringify(history));
  }
  \<close>
  The platform's \<open>Date.prototype.toISOString\<close> is a parameter. The module variable
  \<open>quizStartTime\<close> is \<open>None\<close> for \<open>null\<close>; a start time of 0 is falsy as well.
  \<open>now_ms\<close> is the reading of \<open>Date.now()\<close> and \<open>date_ms\<close> the later reading of
  \<open>new Date()\<close>, in milliseconds. \<open>static_entry\<close> is the object literal \<open>entry\<close>
  with the three constants it is built from.
\<close>

definition static_entry ::
  "(int \<Rightarrow> jsstring) \<Rightarrow> int option \<Rightarrow> int \<Rightarrow> int \<Rightarrow> 'n results_payload
     \<Rightarrow> 'n history_entry" where
  "static_entry toISOString quizStartTime now_ms date_ms data =
     (let quizTime = (case quizStartTime of
                        None \<Rightarrow> 0
                      | Some t0 \<Rightarrow>
                          if t0 = 0 then 0
                          else Math_round (real_of_int (now_ms - t0) / 1000));
          minutes = quizTime div 60;
          seconds = js_rem quizTime 60
      in \<lparr>score = score data, total = total data, percentage = percentage data,
          date = toISOString date_ms,
          duration = show_int minutes @ js ''m '' @ show_int seconds @ js ''s''\<rparr>)"

definition saveQuizToHistory ::
  "(int \<Rightarrow> jsstring) \<Rightarrow> int option \<Rightarrow> int \<Rightarrow> int \<Rightarrow> 'n results_payload
     \<Rightarrow> 'n storage \<Rightarrow> 'n storage" where
  "saveQuizToHistory toISOString quizStartTime now_ms date_ms data st =
     (let history = read_history st;
          entry = static_entry toISOString quizStartTime now_ms date_ms data;
          history = entry # history;
          history = (if length history > 20 then butlast history else history)
      in Some history)"

text \<open>
  \<open>fetchResults\<close> in \<open>ResultsScreen.jsx\<close>; \<open>response\<close> is \<open>None\<close> when
  \<open>api.getResults()\<close> throws, in which case the \<open>catch\<close> block only logs:
  \<^verbatim>\<open>
  const data = await api.getResults();
  setResults(data);
  const history = JSON.parse(localStorage.getItem('quizHistory') || '[]');
  const entry = { date: new Date().toISOString(), score: data.score, total: data.total,
                  percentage: data.percentage, duration: 'N/A' };
  history.unshift(entry);
  if (history.length > 20) history.pop();
  localStorage.setItem('quizHistory', JSON.stringify(history));
  \<close>
\<close>

definition react_entry :: "(int \<Rightarrow> jsstring) \<Rightarrow> int \<Rightarrow> 'n results_payload \<Rightarrow> 'n history_entry" where
  "react_entry toISOString date_ms data =
     \<lparr>score = score data, total = total data, percentage = percentage data,
      date = toISOString date_ms, duration = js ''N/A''\<rparr>"

definition fetchResults ::
  "(int \<Rightarrow> jsstring) \<Rightarrow> int \<Rightarrow> 'n results_payload option \<Rightarrow> 'n storage \<Rightarrow> 'n storage" where
  "fetchResults toISOString date_ms response st =
     (case response of
        None \<Rightarrow> st
      | Some data \<Rightarrow>
          (let history = read_history st;
               entry = react_entry toISOString date_ms data;
               history = entry # history;
               history = (if length history > 20 then butlast history else history)
           in Some history))"

text \<open>
  The ways the log changes: a save by either frontend, or \<open>clearHistory\<close>, which
  removes the key. \<open>run\<close> applies a sequence of them to a browser with no log yet.
\<close>

datatype 'n history_event =
    StaticSave "int option" int int "'n results_payload"
  | ReactSave int "'n results_payload"
  | ClearHistory

fun history_step :: "(int \<Rightarrow> jsstring) \<Rightarrow> 'n storage \<Rightarrow> 'n history_event \<Rightarrow> 'n storage" where
  "history_step toISOString st (StaticSave quizStartTime now_ms date_ms data) =
     saveQuizToHistory toISOString quizStartTime now_ms date_ms data st"
| "history_step toISOString st (ReactSave date_ms data) = fetchResults toISOString date_ms (Some data) st"
| "history_step toISOString st ClearHistory = None"

definition run :: "(int \<Rightarrow> jsstring) \<Rightarrow> 'n history_event list \<Rightarrow> 'n storage" where
  "run toISOString evs = foldl (history_step toISOString) None evs"

text \<open>The entry an event writes, if it is a save.\<close>

fun entry_of :: "(int \<Rightarrow> jsstring) \<Rightarrow> 'n history_event \<Rightarrow> 'n history_entry option" where
  "entry_of toISOString (StaticSave quizStartTime now_ms date_ms data) =
     Some (static_entry toISOString quizStartTime now_ms date_ms data)"
| "entry_of toISOString (ReactSave date_ms data) = Some (react_entry toISOString date_ms data)"
| "entry_of toISOString ClearHistory = None"

section \<open>Quiz session engine\<close>

text \<open>
  The question-bank parser and the session engine run in the backend behind \<open>/api\<close>.
  Their code is not among the sources; only their callers are (\<open>api.pasteText\<close>,
  \<open>api.checkAnswer\<close>, \<open>api.getResults\<close> and the screens that use them). The
  definitions of this section and the next follow the specification.
\<close>

text \<open>Modelled from the spec: the choice letters \<open>{A, B, C, D}\<close> of the absent backend.\<close>

datatype letter = A | B | C | D

text \<open>
  Modelled from the spec: the question record of the absent backend, with the prompt
  (the field \<open>text\<close> of the spec), the choices \<open>(letter, text)\<close> in the order authored,
  and the correct letter.
\<close>

record QuestionRecord =
  prompt_text :: string
  choices :: "(letter \<times> string) list"
  correctLetter :: letter

text \<open>
  Modelled from the spec: the states of the absent session engine,
  \<open>InProgress(currentIndex, score, answeredCurrent)\<close> and \<open>Completed(score, total)\<close>.
\<close>

datatype session_state = InProgress nat nat bool | Completed nat nat

text \<open>Modelled from the spec: the session of the absent engine, a state over a fixed deck.\<close>

record QuizSession =
  deck :: "QuestionRecord list"
  state :: session_state

text \<open>Modelled from the spec: the error taxonomy of the absent session engine.\<close>

datatype session_error =
  AlreadyAnsweredError | NotAnsweredError | OutOfRangeError | NotCompletedError

text \<open>
  Modelled from the spec: the constructor of the absent session engine; the initial
  state is \<open>InProgress(0, 0, false)\<close>.
\<close>

definition new_QuizSession :: "QuestionRecord list \<Rightarrow> QuizSession" where
  "new_QuizSession d = \<lparr>deck = d, state = InProgress 0 0 False\<rparr>"

text \<open>
  Modelled from the spec: \<open>currentQuestion()\<close> of the absent session engine returns
  \<open>deck[currentIndex]\<close> when in progress and fails with \<open>OutOfRangeError\<close> when
  completed.
\<close>

definition currentQuestion :: "QuizSession \<Rightarrow> session_error + QuestionRecord" where
  "currentQuestion s =
     (case state s of
        Completed sc tot \<Rightarrow> Inl OutOfRangeError
      | InProgress i sc answered \<Rightarrow>
          if i < length (deck s) then Inr (deck s ! i) else Inl OutOfRangeError)"

text \<open>
  Modelled from the spec: the value \<open>{correct, correctLetter}\<close> that \<open>submitAnswer\<close>
  of the absent session engine returns.
\<close>

record answer_result =
  correct :: bool
  correct_letter :: letter

text \<open>
  Modelled from the spec: \<open>submitAnswer(letter)\<close> of the absent session engine is
  valid only in \<open>InProgress\<close> and only while \<open>answeredCurrent\<close> is false; called again
  before advancing it fails with \<open>AlreadyAnsweredError\<close>. It compares the letter to the
  correct letter of the current question, increments the score on a match, sets
  \<open>answeredCurrent\<close> and returns \<open>{correct, correctLetter}\<close>; it does not advance.
  The spec names no error for a call in \<open>Completed\<close>; there is no current question
  then, so the model answers as \<open>currentQuestion\<close> does.
\<close>

definition submitAnswer :: "letter \<Rightarrow> QuizSession \<Rightarrow> session_error + (answer_result \<times> QuizSession)" where
  "submitAnswer l s =
     (case state s of
        Completed sc tot \<Rightarrow> Inl OutOfRangeError
      | InProgress i sc answered \<Rightarrow>
          if answered then Inl AlreadyAnsweredError
          else if \<not> i < length (deck s) then Inl OutOfRangeError
          else
            (let right = correctLetter (deck s ! i);
                 ok = (l = right)
             in Inr (\<lparr>correct = ok, correct_letter = right\<rparr>,
                     s\<lparr>state := InProgress i (if ok then sc + 1 else sc) True\<rparr>)))"

text \<open>
  Modelled from the spec: \<open>advance()\<close> of the absent session engine is valid only when
  the current question has been answered; it increments the index, clears
  \<open>answeredCurrent\<close>, and completes the session when the index reaches the length of
  the deck. Otherwise it fails with \<open>NotAnsweredError\<close>.
\<close>

definition advance :: "QuizSession \<Rightarrow> session_error + QuizSession" where
  "advance s =
     (case state s of
        Completed sc tot \<Rightarrow> Inl NotAnsweredError
      | InProgress i sc answered \<Rightarrow>
          if \<not> answered then Inl NotAnsweredError
          else if i + 1 = length (deck s)
               then Inr (s\<lparr>state := Completed sc (length (deck s))\<rparr>)
               else Inr (s\<lparr>state := InProgress (i + 1) sc False\<rparr>))"

text \<open>
  Modelled from the spec: \<open>restart()\<close> of the absent session engine resets to the
  initial state on the same deck.
\<close>

definition restart :: "QuizSession \<Rightarrow> QuizSession" where
  "restart s = s\<lparr>state := InProgress 0 0 False\<rparr>"

text \<open>
  Modelled from the spec: the rounding of the absent \<open>results()\<close>, to the nearest whole
  number with ties rounding up (half-up).
\<close>

definition round_half_up :: "rat \<Rightarrow> int" where
  "round_half_up x = \<lfloor>x + 1 / 2\<rfloor>"

text \<open>
  Modelled from the spec: \<open>results()\<close> of the absent session engine, in the strict
  reading: it requires \<open>Completed\<close>, fails with \<open>NotCompletedError\<close> otherwise, and
  returns \<open>{score, total: len(deck), percentage: round(100 * score / total)}\<close>. A
  session has at least one question; the spec gives no result for an empty deck.
\<close>

definition results :: "QuizSession \<Rightarrow> session_error + int results_payload" where
  "results s =
     (case state s of
        InProgress i sc answered \<Rightarrow> Inl NotCompletedError
      | Completed sc tot \<Rightarrow>
          Inr \<lparr>score = int sc,
               total = int (length (deck s)),
               percentage = round_half_up (100 * of_nat sc / of_nat (length (deck s)))\<rparr>)"

text \<open>
  Modelled from the spec: a caller of the absent \<open>submitAnswer\<close> that keeps submitting
  answers to the same question without an intervening \<open>advance()\<close>. A failed call
  leaves the session as it was. The result counts the successful calls.
\<close>

fun submit_repeatedly :: "letter list \<Rightarrow> QuizSession \<Rightarrow> nat \<times> QuizSession" where
  "submit_repeatedly [] s = (0, s)"
| "submit_repeatedly (l # ls) s =
     (case submitAnswer l s of
        Inl e \<Rightarrow> submit_repeatedly ls s
      | Inr (r, s') \<Rightarrow> (case submit_repeatedly ls s' of (n, s'') \<Rightarrow> (Suc n, s'')))"

section \<open>Question-bank parser\<close>

text \<open>
  Modelled from the spec: the \<open>QUESTION\<close> marker of the absent parser, written as the
  help text of the application shows it.
\<close>

definition QUESTION_MARKER :: string where
  \<open>QUESTION_MARKER = ''"""QUESTION"""''\<close>

text \<open>Modelled from the spec: the \<open>CHOICES\<close> marker of the absent parser.\<close>

definition CHOICES_MARKER :: string where
  \<open>CHOICES_MARKER = ''"""CHOICES"""''\<close>

text \<open>Modelled from the spec: the \<open>ANSWER\<close> marker of the absent parser.\<close>

definition ANSWER_MARKER :: string where
  \<open>ANSWER_MARKER = ''"""ANSWER"""''\<close>

text \<open>
  Modelled from the spec: the validation rules of the absent parser that a parse error
  can name. \<open>EmptyDeck\<close> is the error of a text without any block.
\<close>

datatype rule =
    MissingChoicesMarker | MissingAnswerMarker | WrongChoiceCount | UnrecognizedLetter
  | DuplicateLetter | AnswerNotAmongChoices | EmptyPrompt | EmptyDeck

text \<open>
  Modelled from the spec: \<open>ParseError{blockIndex, reason}\<close> of the absent parser; the
  index is 1-based, and 0 for the error that belongs to no block.
\<close>

record ParseError =
  blockIndex :: nat
  reason :: rule

text \<open>Modelled from the spec: the whitespace the absent parser trims from a text field.\<close>

definition is_space :: "char \<Rightarrow> bool" where
  "is_space c \<longleftrightarrow> c \<in> set [CHR '' '', CHR 0x09, CHR 0x0A, CHR 0x0B, CHR 0x0C, CHR 0x0D]"

text \<open>
  Modelled from the spec: trimming of leading and trailing whitespace of an extracted
  text field in the absent parser.
\<close>

definition strip :: "string \<Rightarrow> string" where
  "strip s = rev (dropWhile is_space (rev (dropWhile is_space s)))"

text \<open>
  Modelled from the spec: locating a marker in a block, in the absent parser. The
  result is the text before the first occurrence and the text after it, or \<open>None\<close>
  when the marker is missing.
\<close>

definition locate :: "string \<Rightarrow> string \<Rightarrow> (string \<times> string) option" where
  "locate marker s =
     (case split marker s of
        [] \<Rightarrow> None
      | [whole] \<Rightarrow> None
      | before # rest \<Rightarrow> Some (before, join marker rest))"

text \<open>Modelled from the spec: a single capital letter A to D, in the absent parser.\<close>

definition letter_of :: "char \<Rightarrow> letter option" where
  "letter_of c =
     (if c = CHR ''A'' then Some A else if c = CHR ''B'' then Some B
      else if c = CHR ''C'' then Some C else if c = CHR ''D'' then Some D else None)"

text \<open>
  Modelled from the spec: a choice line of the absent parser has the form
  \<open><Letter>: <text>\<close>; the text is trimmed.
\<close>

fun parse_choice :: "string \<Rightarrow> (letter \<times> string) option" where
  "parse_choice (c # colon # rest) =
     (if colon = CHR '':'' then map_option (\<lambda>l. (l, strip rest)) (letter_of c) else None)"
| "parse_choice s = None"

text \<open>
  Modelled from the spec: the choice lines between the \<open>CHOICES\<close> and the \<open>ANSWER\<close>
  marker, in the absent parser; blank lines and surrounding whitespace do not count.
\<close>

definition choice_lines :: "string \<Rightarrow> string list" where
  "choice_lines s = filter (\<lambda>l. l \<noteq> []) (map strip (split [CHR 0x0A] s))"

text \<open>
  Modelled from the spec: validation of one block by the absent parser, in the order of
  the algorithm. The markers are located, the four choice lines are parsed (exactly
  four, each with a letter A to D, all distinct), the answer letter is parsed and looked
  up among the choices, and the trimmed prompt must not be empty.
\<close>

definition parse_block :: "string \<Rightarrow> rule + QuestionRecord" where
  "parse_block b =
     (case locate CHOICES_MARKER b of
        None \<Rightarrow> Inl MissingChoicesMarker
      | Some (prompt, after_choices) \<Rightarrow>
          (case locate ANSWER_MARKER after_choices of
             None \<Rightarrow> Inl MissingAnswerMarker
           | Some (choices_text, answer_text) \<Rightarrow>
               (let ls = choice_lines choices_text
                in if length ls \<noteq> 4 then Inl WrongChoiceCount
                   else
                     (case those (map parse_choice ls) of
                        None \<Rightarrow> Inl UnrecognizedLetter
                      | Some cs \<Rightarrow>
                          if \<not> distinct (map fst cs) then Inl DuplicateLetter
                          else
                            (case strip answer_text of
                               [a] \<Rightarrow>
                                 (case letter_of a of
                                    None \<Rightarrow> Inl UnrecognizedLetter
                                  | Some l \<Rightarrow>
                                      if l \<notin> set (map fst cs) then Inl AnswerNotAmongChoices
                                      else if strip prompt = [] then Inl EmptyPrompt
                                      else Inr \<lparr>prompt_text = strip prompt,
                                                choices = cs,
                                                correctLetter = l\<rparr>)
                             | _ \<Rightarrow> Inl UnrecognizedLetter)))))"

text \<open>
  Modelled from the spec: the candidate blocks of the absent parser are the chunks
  after each \<open>QUESTION\<close> marker; the text before the first marker is preamble and
  ignored.
\<close>

definition blocks :: "string \<Rightarrow> string list" where
  "blocks raw = (case split QUESTION_MARKER raw of [] \<Rightarrow> [] | preamble # bs \<Rightarrow> bs)"

text \<open>
  Modelled from the spec: the absent parser validates the blocks in order, all or
  nothing. The first failing block ends the parse with its error and its 1-based
  index; only blocks that are all valid yield records, in the order of the blocks.
\<close>

fun parse_blocks :: "nat \<Rightarrow> string list \<Rightarrow> ParseError + QuestionRecord list" where
  "parse_blocks i [] = Inr []"
| "parse_blocks i (b # bs) =
     (case parse_block b of
        Inl r \<Rightarrow> Inl \<lparr>blockIndex = i, reason = r\<rparr>
      | Inr q \<Rightarrow>
          (case parse_blocks (Suc i) bs of
             Inl e \<Rightarrow> Inl e
           | Inr qs \<Rightarrow> Inr (q # qs)))"

text \<open>
  Modelled from the spec: \<open>parse(rawText)\<close> of the absent parser. A text without any
  block is an error (an empty deck is not allowed); otherwise the blocks are validated.
\<close>

definition parse :: "string \<Rightarrow> ParseError + QuestionRecord list" where
  "parse raw =
     (if blocks raw = [] then Inl \<lparr>blockIndex = 0, reason = EmptyDeck\<rparr>
      else parse_blocks 1 (blocks raw))"

text \<open>
  Modelled from the spec: the raw text of the concrete scenario, two well-formed blocks
  with the answers B and A.
\<close>

definition two_blocks :: string where
  \<open>two_blocks =
     ''"""QUESTION"""1+1?"""CHOICES"""A: 1\<newline>B: 2\<newline>C: 3\<newline>D: 4\<newline>"""ANSWER"""B\<newline>'' @
     ''"""QUESTION"""2+2?"""CHOICES"""A: 4\<newline>B: 2\<newline>C: 3\<newline>D: 1\<newline>"""ANSWER"""A''\<close>

text \<open>
  Modelled from the spec: the raw text of the atomicity example, the same two blocks
  with the \<open>ANSWER\<close> section of block 2 missing.
\<close>

definition second_block_without_answer :: string where
  \<open>second_block_without_answer =
     ''"""QUESTION"""1+1?"""CHOICES"""A: 1\<newline>B: 2\<newline>C: 3\<newline>D: 4\<newline>"""ANSWER"""B\<newline>'' @
     ''"""QUESTION"""2+2?"""CHOICES"""A: 4\<newline>B: 2\<newline>C: 3\<newline>D: 1''\<close>

section \<open>Properties of splitting and trimming\<close>

lemma split_not_Nil: "split sep s \<noteq> []"
  by (induction sep s rule: split.induct) (auto split: list.splits)

lemma join_Cons: "ps \<noteq> [] \<Longrightarrow> join sep (p # ps) = p @ sep @ join sep ps"
  by (cases ps) auto

lemma join_split: "join sep (split sep s) = s"
proof (induction sep s rule: split.induct)
  case (1 sep)
  show ?case by simp
next
  case (2 sep c cs)
  show ?case
  proof (cases "sep \<noteq> [] \<and> prefix sep (c # cs)")
    case True
    then have "c # cs = sep @ drop (length sep) (c # cs)"
      by (metis append_eq_conv_conj prefix_def)
    with True 2 show ?thesis
      by (simp add: join_Cons split_not_Nil del: drop.simps)
  next
    case False
    with 2 have ih: "join sep (split sep cs) = cs" by simp
    obtain p ps where sp: "split sep cs = p # ps"
      using split_not_Nil [of sep cs] by (cases "split sep cs") auto
    from ih sp have "join sep ((c # p) # ps) = c # cs"
      by (cases ps) auto
    moreover have "split sep (c # cs) = (c # p) # ps"
      using False sp by auto
    ultimately show ?thesis by simp
  qed
qed

lemma length_split: "length (split sep s) = Suc (count_matches sep s)"
  by (induction sep s rule: split.induct) (auto split: list.splits simp: split_not_Nil)

lemma hd_split_prefix: "prefix (hd (split sep s)) s"
  by (induction sep s rule: split.induct) (auto split: list.splits)

lemma split_no_sep: "sep \<noteq> [] \<Longrightarrow> p \<in> set (split sep s) \<Longrightarrow> \<not> sublist sep p"
proof (induction sep s arbitrary: p rule: split.induct)
  case (1 sep)
  then show ?case by simp
next
  case (2 sep c cs)
  show ?case
  proof (cases "prefix sep (c # cs)")
    case True
    with 2 show ?thesis by (auto simp del: drop.simps)
  next
    case False
    obtain q qs where sp: "split sep cs = q # qs"
      using split_not_Nil [of sep cs] by (cases "split sep cs") auto
    have pq: "prefix q cs" using hd_split_prefix [of sep cs] sp by simp
    from False sp 2(4) have "p = c # q \<or> p \<in> set qs" by simp
    then show ?thesis
    proof
      assume p: "p = c # q"
      have "\<not> prefix sep (c # q)"
        using False pq by (meson Cons_prefix_Cons prefix_order.trans)
      moreover have "\<not> sublist sep q"
        using 2(2) [of q] False 2(3) sp by simp
      ultimately show ?thesis using p 2(3) by (simp add: sublist_Cons_right)
    next
      assume "p \<in> set qs"
      then show ?thesis using 2(2) [of p] False 2(3) sp by simp
    qed
  qed
qed

lemma drop_trailing_prefix: "rev (dropWhile P (rev a)) @ rev (takeWhile P (rev a)) = a"
proof -
  have "rev (takeWhile P (rev a) @ dropWhile P (rev a)) = a" by simp
  then show ?thesis by (simp only: rev_append)
qed

lemma trim_trimmed: "trim s = [] \<or> (\<not> is_ws (hd (trim s)) \<and> \<not> is_ws (last (trim s)))"
proof (cases "trim s = []")
  case True
  then show ?thesis by simp
next
  case False
  let ?a = "dropWhile is_ws s"
  let ?b = "dropWhile is_ws (rev ?a)"
  from False have b: "?b \<noteq> []" by (simp add: trim_def)
  then have "\<not> is_ws (hd ?b)" by (metis hd_dropWhile)
  then have l: "\<not> is_ws (last (trim s))" using b by (simp add: trim_def last_rev)
  from b have a: "?a \<noteq> []" by (metis dropWhile.simps(1) rev_is_Nil_conv)
  then have ha: "\<not> is_ws (hd ?a)" by (metis hd_dropWhile)
  have "trim s @ rev (takeWhile is_ws (rev ?a)) = ?a"
    unfolding trim_def by (rule drop_trailing_prefix)
  with False have "hd (trim s) = hd ?a" by (metis hd_append2)
  with ha l False show ?thesis by simp
qed

lemma CODE_MARKER_units: "CODE_MARKER = [34, 34, 34, 67, 79, 68, 69, 34, 34, 34]"
  by (simp add: CODE_MARKER_def js_def)

lemma CODE_MARKER_not_Nil: "CODE_MARKER \<noteq> []"
  by (simp add: CODE_MARKER_units)

lemma parseQuestionContent_Some:
  "t \<noteq> [] \<Longrightarrow> parseQuestionContent (Some t) =
     Some (map (\<lambda>(index, part). render_part part index) (enumerate 0 (split CODE_MARKER t)))"
  by (simp add: parseQuestionContent_def)

lemma segment_of_render_part:
  "segment_of (render_part p i) =
     (if odd i then Some (code, trim p)
      else if trim p = [] then None else Some (prose, trim p))"
  by (simp add: render_part_def odd_iff_mod_2_eq_one)

lemma map_filter_render_part:
  "List.map_filter segment_of (map (\<lambda>(index, part). render_part part index) xs)
     = filter (\<lambda>(k, c). k = code \<or> c \<noteq> [])
         (map (\<lambda>(i, p). (if odd i then code else prose, trim p)) xs)"
  by (induction xs)
     (auto simp: List.map_filter_simps segment_of_render_part split: if_splits)

lemma segments_parseQuestionContent:
  "segments (parseQuestionContent (Some t))
     = filter (\<lambda>(k, c). k = code \<or> c \<noteq> [])
         (map (\<lambda>(i, p). (if odd i then code else prose, trim p))
              (enumerate 0 (split CODE_MARKER t)))"
proof (cases "t = []")
  case True
  then show ?thesis
    by (simp add: parseQuestionContent_def segments_def trim_def)
next
  case False
  then have "parseQuestionContent (Some t) =
      Some (map (\<lambda>(index, part). render_part part index) (enumerate 0 (split CODE_MARKER t)))"
    by (rule parseQuestionContent_Some)
  then show ?thesis
    by (simp add: segments_def map_filter_render_part)
qed

lemma segment_from_fragment:
  assumes "(k, c) \<in> set (segments (parseQuestionContent (Some t)))"
  shows "\<exists>i < length (split CODE_MARKER t).
           c = trim (split CODE_MARKER t ! i) \<and> k = (if odd i then code else prose)"
proof -
  from assms obtain i p where ip: "(i, p) \<in> set (enumerate 0 (split CODE_MARKER t))"
      and kc: "k = (if odd i then code else prose)" "c = trim p"
    unfolding segments_parseQuestionContent by auto
  from ip have "i < length (split CODE_MARKER t)" "p = split CODE_MARKER t ! i"
    by (auto simp: in_set_enumerate_eq)
  with kc show ?thesis by blast
qed

lemmas renderer_eval =
  parseQuestionContent_def CODE_MARKER_units js_def render_part_def trim_def is_ws_def
  enumerate_eq_zip upt_rec segments_def List.map_filter_def

section \<open>Properties of the history log\<close>

lemma cap_take:
  assumes "length h \<le> 20"
  shows "(if length (e # h) > 20 then butlast (e # h) else e # h) = take 20 (e # h)"
proof (cases "length h = 20")
  case True
  have "butlast (e # h) = take (length (e # h) - 1) (e # h)"
    by (rule butlast_conv_take)
  also have "\<dots> = take 20 (e # h)" by (simp only: True list.size) simp
  finally show ?thesis using True by simp
next
  case False
  with assms show ?thesis by simp
qed

lemma cap_hd: "hd (if length (e # h) > 20 then butlast (e # h) else e # h) = e"
  by (cases h) auto

lemma cap_not_Nil: "(if length (e # h) > 20 then butlast (e # h) else e # h) \<noteq> []"
  by (cases h) auto

lemma take_append_take: "take n (xs @ take n ys) = take n (xs @ ys)"
  by (simp add: min_def)

lemma read_saveQuizToHistory:
  "read_history (saveQuizToHistory f q n d data st) =
     (if length (static_entry f q n d data # read_history st) > 20
      then butlast (static_entry f q n d data # read_history st)
      else static_entry f q n d data # read_history st)"
  by (simp add: saveQuizToHistory_def read_history_def Let_def)

lemma read_fetchResults:
  "read_history (fetchResults f d (Some data) st) =
     (if length (react_entry f d data # read_history st) > 20
      then butlast (react_entry f d data # read_history st)
      else react_entry f d data # read_history st)"
  by (simp add: fetchResults_def read_history_def Let_def)

lemma step_save:
  assumes "entry_of f ev = Some e" and "length (read_history st) \<le> 20"
  shows "read_history (history_step f st ev) = take 20 (e # read_history st)"
proof (cases ev)
  case (StaticSave q n d data)
  with assms(1) have "e = static_entry f q n d data" by simp
  then show ?thesis
    unfolding StaticSave history_step.simps read_saveQuizToHistory
    using assms(2) by (simp only: cap_take)
next
  case (ReactSave d data)
  with assms(1) have "e = react_entry f d data" by simp
  then show ?thesis
    unfolding ReactSave history_step.simps read_fetchResults
    using assms(2) by (simp only: cap_take)
next
  case ClearHistory
  with assms(1) show ?thesis by simp
qed

lemma step_bound:
  assumes "length (read_history st) \<le> 20"
  shows "length (read_history (history_step f st ev)) \<le> 20"
proof (cases "entry_of f ev")
  case None
  then have "ev = ClearHistory" by (cases ev) auto
  then show ?thesis by (simp add: read_history_def)
next
  case (Some e)
  from step_save [OF Some assms] show ?thesis by simp
qed

lemma foldl_bound:
  "length (read_history st) \<le> 20 \<Longrightarrow>
   length (read_history (foldl (history_step f) st evs)) \<le> 20"
  by (induction evs arbitrary: st) (auto simp: step_bound)

lemma foldl_saves:
  "ClearHistory \<notin> set evs \<Longrightarrow> length (read_history st) \<le> 20 \<Longrightarrow>
   read_history (foldl (history_step f) st evs)
     = take 20 (rev (List.map_filter (entry_of f) evs) @ read_history st)"
proof (induction evs arbitrary: st)
  case Nil
  then show ?case by (simp add: List.map_filter_simps)
next
  case (Cons ev evs)
  then obtain e where e: "entry_of f ev = Some e" by (cases ev) auto
  let ?st = "history_step f st ev"
  have st': "read_history ?st = take 20 (e # read_history st)"
    using e Cons.prems(2) by (rule step_save)
  then have b: "length (read_history ?st) \<le> 20" by simp
  have "read_history (foldl (history_step f) ?st evs)
          = take 20 (rev (List.map_filter (entry_of f) evs) @ read_history ?st)"
    using Cons.IH [of ?st] Cons.prems(1) b by simp
  also have "\<dots> = take 20 (rev (List.map_filter (entry_of f) evs) @ e # read_history st)"
    by (simp only: st' take_append_take)
  finally show ?case by (simp add: List.map_filter_simps e)
qed

section \<open>Properties of the session engine and the parser\<close>

lemma round_half_up_nearest:
  "of_int (round_half_up x) - 1 / 2 \<le> x \<and> x < of_int (round_half_up x) + 1 / 2"
  unfolding round_half_up_def by linarith

lemma round_half_up_div:
  assumes "0 < n"
  shows "round_half_up (100 * of_nat sc / of_nat n) = (200 * int sc + int n) div (2 * int n)"
proof -
  have "(100 * of_nat sc / of_nat n + 1 / 2 :: rat) = of_int (200 * int sc + int n) / of_int (2 * int n)"
    using assms by (simp add: field_simps)
  then show ?thesis
    unfolding round_half_up_def by (simp only: floor_divide_of_int_eq)
qed

lemma submitAnswer_answered:
  "state s = InProgress i sc True \<Longrightarrow> submitAnswer l s = Inl AlreadyAnsweredError"
  by (simp add: submitAnswer_def)

lemma submitAnswer_marks:
  "submitAnswer l s = Inr (r, s') \<Longrightarrow> \<exists>i sc. state s' = InProgress i sc True"
  by (auto simp: submitAnswer_def Let_def split: session_state.splits if_splits)

lemma submit_repeatedly_answered:
  "state s = InProgress i sc True \<Longrightarrow> submit_repeatedly ls s = (0, s)"
  by (induction ls) (simp_all add: submitAnswer_answered)

lemma submit_repeatedly_le_1: "fst (submit_repeatedly ls s) \<le> 1"
proof (induction ls arbitrary: s)
  case Nil
  show ?case by simp
next
  case (Cons l ls)
  show ?case
  proof (cases "submitAnswer l s")
    case (Inl e)
    with Cons.IH [of s] show ?thesis by simp
  next
    case (Inr p)
    obtain r s' where p: "p = (r, s')" by (cases p)
    from Inr p obtain i sc where "state s' = InProgress i sc True"
      using submitAnswer_marks by blast
    then have "submit_repeatedly ls s' = (0, s')" by (rule submit_repeatedly_answered)
    with Inr p show ?thesis by simp
  qed
qed

lemma parse_blocks_fail:
  "i < length bs \<Longrightarrow> parse_block (bs ! i) = Inl r \<Longrightarrow>
   \<exists>k r'. parse_blocks n bs = Inl \<lparr>blockIndex = n + k, reason = r'\<rparr>
        \<and> k \<le> i \<and> parse_block (bs ! k) = Inl r'
        \<and> (\<forall>j<k. \<exists>q. parse_block (bs ! j) = Inr q)"
proof (induction bs arbitrary: i n)
  case Nil
  then show ?case by simp
next
  case (Cons b bs)
  show ?case
  proof (cases "parse_block b")
    case (Inl r0)
    then have "parse_blocks n (b # bs) = Inl \<lparr>blockIndex = n + 0, reason = r0\<rparr>
        \<and> 0 \<le> i \<and> parse_block ((b # bs) ! 0) = Inl r0
        \<and> (\<forall>j<0. \<exists>q. parse_block ((b # bs) ! j) = Inr q)"
      by simp
    then show ?thesis by blast
  next
    case (Inr q)
    with Cons.prems obtain i' where i': "i = Suc i'" by (cases i) auto
    with Cons.prems have "i' < length bs" "parse_block (bs ! i') = Inl r" by auto
    from Cons.IH [OF this, of "Suc n"] obtain k r' where
      k: "parse_blocks (Suc n) bs = Inl \<lparr>blockIndex = Suc n + k, reason = r'\<rparr>"
         "k \<le> i'" "parse_block (bs ! k) = Inl r'"
         "\<forall>j<k. \<exists>q. parse_block (bs ! j) = Inr q"
      by blast
    have "\<forall>j<Suc k. \<exists>q. parse_block ((b # bs) ! j) = Inr q"
    proof (intro allI impI)
      fix j assume "j < Suc k"
      then show "\<exists>q. parse_block ((b # bs) ! j) = Inr q"
        using Inr k(4) by (cases j) auto
    qed
    moreover have "parse_blocks n (b # bs) = Inl \<lparr>blockIndex = n + Suc k, reason = r'\<rparr>"
      using Inr k(1) by simp
    moreover have "Suc k \<le> i" using k(2) i' by simp
    moreover have "parse_block ((b # bs) ! Suc k) = Inl r'" using k(3) by simp
    ultimately show ?thesis by blast
  qed
qed

lemma parse_blocks_complete:
  "parse_blocks n bs = Inr qs \<Longrightarrow>
   length qs = length bs \<and> (\<forall>j<length bs. parse_block (bs ! j) = Inr (qs ! j))"
proof (induction bs arbitrary: n qs)
  case Nil
  then show ?case by simp
next
  case (Cons b bs)
  from Cons.prems obtain q qs' where q: "parse_block b = Inr q"
      and qs': "parse_blocks (Suc n) bs = Inr qs'" and qs: "qs = q # qs'"
    by (auto split: sum.splits)
  from Cons.IH [OF qs'] have ih: "length qs' = length bs"
      "\<forall>j<length bs. parse_block (bs ! j) = Inr (qs' ! j)" by auto
  have "\<forall>j<length (b # bs). parse_block ((b # bs) ! j) = Inr (qs ! j)"
  proof (intro allI impI)
    fix j assume "j < length (b # bs)"
    then show "parse_block ((b # bs) ! j) = Inr (qs ! j)"
      using q qs ih(2) by (cases j) auto
  qed
  with ih(1) qs show ?case by simp
qed

lemmas parser_eval = parse_def blocks_def parse_block_def locate_def choice_lines_def strip_def
  is_space_def letter_of_def QUESTION_MARKER_def CHOICES_MARKER_def ANSWER_MARKER_def Let_def

section \<open>Claims about the content renderer\<close>

text \<open>
  Claim C1. For every non-empty text, \<open>parseQuestionContent\<close> splits the text on the
  \<open>"""CODE"""\<close> marker into an ordered sequence of fragments (joining the fragments with
  the marker gives the text back, and no fragment contains the marker), and produces one
  child per fragment, classified by position: the child at an odd 0-based index is a code
  element holding the trimmed fragment, the child at an even index is a prose element
  holding the trimmed fragment (or the empty string, when the fragment trims to empty).
  For every text, the empty one included, each rendered segment is the trimmed fragment
  at some index of the split, code when the index is odd and prose when it is even.
  In particular the text \<open>intro """CODE""" x=1 """CODE""" outro\<close> yields exactly the
  segments prose \<open>intro\<close>, code \<open>x=1\<close>, prose \<open>outro\<close>.
\<close>

theorem parseQuestionContent_alternation:
  \<open>(\<forall>t. t \<noteq> [] \<longrightarrow>
      (\<exists>ns. parseQuestionContent (Some t) = Some ns
         \<and> join CODE_MARKER (split CODE_MARKER t) = t
         \<and> (\<forall>p \<in> set (split CODE_MARKER t). \<not> sublist CODE_MARKER p)
         \<and> length ns = length (split CODE_MARKER t)
         \<and> (\<forall>i < length ns.
               (odd i \<longrightarrow> ns ! i = Pre i (trim (split CODE_MARKER t ! i)))
             \<and> (even i \<longrightarrow> ns ! i = Div i (trim (split CODE_MARKER t ! i))
                            \<or> ns ! i = EmptyString))))
   \<and> (\<forall>t k c. (k, c) \<in> set (segments (parseQuestionContent (Some t))) \<longrightarrow>
         (\<exists>i < length (split CODE_MARKER t).
            c = trim (split CODE_MARKER t ! i) \<and> k = (if odd i then code else prose)))
   \<and> parseQuestionContent (Some (js ''intro """CODE""" x=1 """CODE""" outro''))
       = Some [Div 0 (js ''intro''), Pre 1 (js ''x=1''), Div 2 (js ''outro'')]
   \<and> segments (parseQuestionContent (Some (js ''intro """CODE""" x=1 """CODE""" outro'')))
       = [(prose, js ''intro''), (code, js ''x=1''), (prose, js ''outro'')]\<close>
proof (intro conjI allI impI)
  fix t :: jsstring
  assume t: "t \<noteq> []"
  let ?ps = "split CODE_MARKER t"
  let ?ns = "map (\<lambda>(index, part). render_part part index) (enumerate 0 ?ps)"
  have cls: "\<forall>i < length ?ns.
               (odd i \<longrightarrow> ?ns ! i = Pre i (trim (?ps ! i)))
             \<and> (even i \<longrightarrow> ?ns ! i = Div i (trim (?ps ! i)) \<or> ?ns ! i = EmptyString)"
  proof (intro allI impI)
    fix i assume "i < length ?ns"
    then have "?ns ! i = render_part (?ps ! i) i"
      by (simp add: nth_enumerate_eq)
    then show "(odd i \<longrightarrow> ?ns ! i = Pre i (trim (?ps ! i)))
             \<and> (even i \<longrightarrow> ?ns ! i = Div i (trim (?ps ! i)) \<or> ?ns ! i = EmptyString)"
      by (auto simp: render_part_def odd_iff_mod_2_eq_one)
  qed
  have "parseQuestionContent (Some t) = Some ?ns"
    using t by (rule parseQuestionContent_Some)
  moreover have "join CODE_MARKER ?ps = t" by (rule join_split)
  moreover have "\<forall>p \<in> set ?ps. \<not> sublist CODE_MARKER p"
    using split_no_sep [OF CODE_MARKER_not_Nil] by blast
  moreover have "length ?ns = length ?ps" by simp
  ultimately show "\<exists>ns. parseQuestionContent (Some t) = Some ns
         \<and> join CODE_MARKER (split CODE_MARKER t) = t
         \<and> (\<forall>p \<in> set (split CODE_MARKER t). \<not> sublist CODE_MARKER p)
         \<and> length ns = length (split CODE_MARKER t)
         \<and> (\<forall>i < length ns.
               (odd i \<longrightarrow> ns ! i = Pre i (trim (split CODE_MARKER t ! i)))
             \<and> (even i \<longrightarrow> ns ! i = Div i (trim (split CODE_MARKER t ! i))
                            \<or> ns ! i = EmptyString))"
    using cls by blast
next
  fix t k c
  assume "(k, c) \<in> set (segments (parseQuestionContent (Some t)))"
  then show "\<exists>i < length (split CODE_MARKER t).
            c = trim (split CODE_MARKER t ! i) \<and> k = (if odd i then code else prose)"
    by (rule segment_from_fragment)
next
  show p: \<open>parseQuestionContent (Some (js ''intro """CODE""" x=1 """CODE""" outro''))
       = Some [Div 0 (js ''intro''), Pre 1 (js ''x=1''), Div 2 (js ''outro'')]\<close>
    by (simp add: renderer_eval)
  show \<open>segments (parseQuestionContent (Some (js ''intro """CODE""" x=1 """CODE""" outro'')))
       = [(prose, js ''intro''), (code, js ''x=1''), (prose, js ''outro'')]\<close>
    by (simp add: p segments_def List.map_filter_def)
qed

theorem parseQuestionContent_alternation_witness:
  \<open>js ''q """CODE""" c'' \<noteq> [] \<and> (1::nat) < 2 \<and> odd (1::nat)
   \<and> (\<exists>ns. parseQuestionContent (Some (js ''q """CODE""" c'')) = Some ns
          \<and> length ns = 2 \<and> ns ! 1 = Pre 1 (js ''c''))
   \<and> (code, js ''c'') \<in> set (segments (parseQuestionContent (Some (js ''q """CODE""" c''))))
   \<and> (\<exists>i < length (split CODE_MARKER (js ''q """CODE""" c'')).
          js ''c'' = trim (split CODE_MARKER (js ''q """CODE""" c'') ! i) \<and> odd i)\<close>
proof -
  let ?t = \<open>js ''q """CODE""" c''\<close>
  have ne: "?t \<noteq> []" by (simp add: js_def)
  have sp: "split CODE_MARKER ?t = [js ''q '', js '' c'']"
    by (simp add: renderer_eval)
  have tr: "trim (js '' c'') = js ''c''"
    by (simp add: renderer_eval)
  from parseQuestionContent_alternation ne
  obtain ns where ns: "parseQuestionContent (Some ?t) = Some ns"
      "length ns = length (split CODE_MARKER ?t)"
      "\<forall>i < length ns. (odd i \<longrightarrow> ns ! i = Pre i (trim (split CODE_MARKER ?t ! i)))
             \<and> (even i \<longrightarrow> ns ! i = Div i (trim (split CODE_MARKER ?t ! i))
                            \<or> ns ! i = EmptyString)"
    by blast
  from ns(2) have len: "length ns = 2" by (simp only: sp) simp
  with ns(3) have "ns ! 1 = Pre 1 (trim (split CODE_MARKER ?t ! 1))" by simp
  then have n1: "ns ! 1 = Pre 1 (js ''c'')" by (simp add: sp tr)
  have mem: "(code, js ''c'') \<in> set (segments (parseQuestionContent (Some ?t)))"
    by (simp add: renderer_eval)
  with parseQuestionContent_alternation
  obtain i where i: "i < length (split CODE_MARKER ?t)"
      "js ''c'' = trim (split CODE_MARKER ?t ! i)" "code = (if odd i then code else prose)"
    by blast
  from i(3) have "odd i" by (simp split: if_splits)
  with i(1,2) have ex: "\<exists>i < length (split CODE_MARKER ?t).
          js ''c'' = trim (split CODE_MARKER ?t ! i) \<and> odd i" by blast
  from ns(1) len n1 ne mem ex show ?thesis by auto
qed

text \<open>
  Claim C2, as stated, fails: a code fragment that trims to empty is not dropped. The
  text \<open>a """CODE""" """CODE""" b\<close> has an empty code fragment between the two markers,
  and an empty code block is rendered for it.
\<close>

theorem empty_code_segment_rendered:
  \<open>segments (parseQuestionContent (Some (js ''a """CODE""" """CODE""" b'')))
     = [(prose, js ''a''), (code, []), (prose, js ''b'')]\<close>
  by (simp add: renderer_eval)

text \<open>
  Claim C2, amended. For every input string, the rendered segments are exactly the
  fragments of the split, each trimmed and classified by position, without the prose
  fragments that trim to empty; code fragments are all kept, empty or not. So no empty
  prose segment is ever rendered, and the content of every rendered segment has no
  leading and no trailing whitespace.
\<close>

theorem segments_trimmed_no_empty_prose:
  "segments (parseQuestionContent (Some t)) =
     filter (\<lambda>(k, c). k = code \<or> c \<noteq> [])
       (map (\<lambda>(i, p). (if odd i then code else prose, trim p))
            (enumerate 0 (split CODE_MARKER t)))
   \<and> (\<forall>(k, c) \<in> set (segments (parseQuestionContent (Some t))).
         (k = prose \<longrightarrow> c \<noteq> []) \<and> (c = [] \<or> (\<not> is_ws (hd c) \<and> \<not> is_ws (last c))))"
proof -
  let ?f = "\<lambda>(i, p). (if odd i then code else prose, trim p)"
  let ?keep = "\<lambda>(k, c). k = code \<or> c \<noteq> ([]::jsstring)"
  have eq: "segments (parseQuestionContent (Some t))
              = filter ?keep (map ?f (enumerate 0 (split CODE_MARKER t)))"
    by (rule segments_parseQuestionContent)
  have "(k = prose \<longrightarrow> c \<noteq> []) \<and> (c = [] \<or> (\<not> is_ws (hd c) \<and> \<not> is_ws (last c)))"
    if "(k, c) \<in> set (segments (parseQuestionContent (Some t)))" for k c
  proof -
    from that eq
    have "(k, c) \<in> set (filter ?keep (map ?f (enumerate 0 (split CODE_MARKER t))))"
      by simp
    then have keep: "k = code \<or> c \<noteq> []" and "\<exists>p. c = trim p"
      by auto
    then obtain p where "c = trim p" by blast
    with trim_trimmed [of p] keep show ?thesis by (cases k) auto
  qed
  with eq show ?thesis by auto
qed

theorem segments_trimmed_no_empty_prose_witness:
  \<open>(prose, js ''b'') \<in> set (segments (parseQuestionContent (Some (js '' b """CODE"""''))))
   \<and> js ''b'' \<noteq> [] \<and> \<not> is_ws (hd (js ''b'')) \<and> \<not> is_ws (last (js ''b''))
   \<and> segments (parseQuestionContent (Some (js '' b """CODE"""'')))
        = [(prose, js ''b''), (code, [])]\<close>
proof -
  let ?t = \<open>js '' b """CODE"""''\<close>
  have seg: "segments (parseQuestionContent (Some ?t)) = [(prose, js ''b''), (code, [])]"
    by (simp add: renderer_eval)
  have mem: "(prose, js ''b'') \<in> set (segments (parseQuestionContent (Some ?t)))"
    unfolding seg by simp
  with segments_trimmed_no_empty_prose [of ?t]
  have "js ''b'' \<noteq> [] \<and> (js ''b'' = [] \<or> (\<not> is_ws (hd (js ''b'')) \<and> \<not> is_ws (last (js ''b''))))"
    by blast
  with mem seg show ?thesis by blast
qed

text \<open>
  Claim C7. For every text with an odd number of \<open>"""CODE"""\<close> marker occurrences
  (counted as the split finds them: from the left, without overlap), segmentation does
  not fail: \<open>parseQuestionContent\<close> returns its container, and the trailing fragment
  after the last marker is classified as code. It is the last child, a code element
  holding the trimmed fragment, and the last rendered segment.
\<close>

theorem unclosed_code_block_is_code:
  assumes "odd (count_matches CODE_MARKER t)"
  shows "\<exists>ns. parseQuestionContent (Some t) = Some ns \<and> ns \<noteq> []
           \<and> last ns = Pre (length ns - 1) (trim (last (split CODE_MARKER t)))
           \<and> segments (Some ns) \<noteq> []
           \<and> last (segments (Some ns)) = (code, trim (last (split CODE_MARKER t)))"
proof -
  let ?ps = "split CODE_MARKER t"
  let ?ns = "map (\<lambda>(index, part). render_part part index) (enumerate 0 ?ps)"
  from assms have t: "t \<noteq> []" by (cases t) auto
  then have parse: "parseQuestionContent (Some t) = Some ?ns"
    by (rule parseQuestionContent_Some)
  have len: "length ?ps = Suc (count_matches CODE_MARKER t)" by (rule length_split)
  with assms have ev: "even (length ?ps)" by simp
  have ne: "?ps \<noteq> []" by (rule split_not_Nil)
  then have "length ?ns \<noteq> 0" by simp
  then have ns_ne: "?ns \<noteq> []" by (simp only: length_0_conv not_False_eq_True)
  from ne ev have "odd (length ?ps - 1)" by (cases ?ps) auto
  then have od: "(length ?ps - 1) mod 2 = 1" by presburger
  have "last ?ns = ?ns ! (length ?ps - 1)"
    using ns_ne by (simp add: last_conv_nth)
  also have "\<dots> = render_part (?ps ! (length ?ps - 1)) (length ?ps - 1)"
    using ne by (simp add: nth_enumerate_eq)
  also have "\<dots> = Pre (length ?ps - 1) (trim (last ?ps))"
    using ne by (simp only: render_part_def od) (simp add: last_conv_nth)
  finally have lst: "last ?ns = Pre (length ?ns - 1) (trim (last ?ps))" by simp
  obtain ms where ms: "?ns = ms @ [Pre (length ?ns - 1) (trim (last ?ps))]"
    using ns_ne lst by (metis append_butlast_last_id)
  have "segments (Some ?ns) = List.map_filter segment_of ms @ [(code, trim (last ?ps))]"
    by (subst ms) (simp add: segments_def List.map_filter_def)
  then have "segments (Some ?ns) \<noteq> []"
      and "last (segments (Some ?ns)) = (code, trim (last ?ps))"
    by simp_all
  with parse ns_ne lst show ?thesis by blast
qed

theorem unclosed_code_block_is_code_witness:
  \<open>odd (count_matches CODE_MARKER (js ''What prints? """CODE""" x=1''))
   \<and> (\<exists>ns. parseQuestionContent (Some (js ''What prints? """CODE""" x=1'')) = Some ns
          \<and> last (segments (Some ns)) = (code, js ''x=1''))\<close>
proof -
  let ?t = \<open>js ''What prints? """CODE""" x=1''\<close>
  have cnt: "count_matches CODE_MARKER ?t = 1"
    by (simp add: CODE_MARKER_units js_def)
  then have od: "odd (count_matches CODE_MARKER ?t)" by simp
  have sp: "trim (last (split CODE_MARKER ?t)) = js ''x=1''"
    by (simp add: renderer_eval)
  from unclosed_code_block_is_code [OF od] sp od show ?thesis by auto
qed

text \<open>
  Claim C9. For a missing text and for the empty string, \<open>parseQuestionContent\<close>
  returns \<open>null\<close>, not an empty sequence. For every non-empty string it returns a
  container with one child per fragment (at least one); the container's body can still
  be empty, as for a text of one space, whose only child is the empty string.
\<close>

theorem parseQuestionContent_null_iff_falsy:
  "parseQuestionContent None = None
   \<and> parseQuestionContent (Some []) = None
   \<and> (\<forall>t. t \<noteq> [] \<longrightarrow>
         (\<exists>ns. parseQuestionContent (Some t) = Some ns
            \<and> length ns = Suc (count_matches CODE_MARKER t)))
   \<and> parseQuestionContent (Some (js '' '')) = Some [EmptyString]
   \<and> segments (parseQuestionContent (Some (js '' ''))) = []"
proof (intro conjI allI impI)
  show "parseQuestionContent None = None"
    by (simp add: parseQuestionContent_def)
  show "parseQuestionContent (Some []) = None"
    by (simp add: parseQuestionContent_def)
  show "\<exists>ns. parseQuestionContent (Some t) = Some ns
            \<and> length ns = Suc (count_matches CODE_MARKER t)" if "t \<noteq> []" for t
    using that by (simp add: parseQuestionContent_Some length_split)
  show "parseQuestionContent (Some (js '' '')) = Some [EmptyString]"
    by (simp add: renderer_eval)
  show "segments (parseQuestionContent (Some (js '' ''))) = []"
    by (simp add: renderer_eval)
qed

theorem parseQuestionContent_null_iff_falsy_witness:
  "js ''x'' \<noteq> []
   \<and> (\<exists>ns. parseQuestionContent (Some (js ''x'')) = Some ns \<and> length ns = 1)"
proof -
  have ne: "js ''x'' \<noteq> []" by (simp add: js_def)
  have "count_matches CODE_MARKER (js ''x'') = 0"
    by (simp add: CODE_MARKER_units js_def)
  with parseQuestionContent_null_iff_falsy ne show ?thesis by fastforce
qed

section \<open>Claims about the history log and the performance message\<close>

text \<open>
  Claim C5. After every save of a quiz result the history log holds at most 20 entries,
  newest first. A save by either frontend to a log within the cap (as every log the
  application itself wrote is) puts the new entry at the front and keeps the first 20
  entries, so the oldest (last) entry is evicted exactly when the cap would be exceeded.
  Starting from a browser without a log, after any sequence of saves and clears the log
  has at most 20 entries; without a clear, it is the 20 newest written entries, newest
  first.
\<close>

theorem history_capped_newest_first:
  "(length (read_history st) \<le> 20 \<longrightarrow>
      read_history (saveQuizToHistory f q n d data st)
        = take 20 (static_entry f q n d data # read_history st)
    \<and> read_history (fetchResults f d (Some data) st)
        = take 20 (react_entry f d data # read_history st))
   \<and> length (read_history (run f evs)) \<le> 20
   \<and> (ClearHistory \<notin> set evs \<longrightarrow>
        read_history (run f evs) = take 20 (rev (List.map_filter (entry_of f) evs)))"
proof (intro conjI impI)
  assume b: "length (read_history st) \<le> 20"
  show "read_history (saveQuizToHistory f q n d data st)
          = take 20 (static_entry f q n d data # read_history st)"
    unfolding read_saveQuizToHistory using b by (rule cap_take)
  show "read_history (fetchResults f d (Some data) st)
          = take 20 (react_entry f d data # read_history st)"
    unfolding read_fetchResults using b by (rule cap_take)
next
  show "length (read_history (run f evs)) \<le> 20"
    unfolding run_def by (rule foldl_bound) (simp add: read_history_def)
next
  assume "ClearHistory \<notin> set evs"
  then show "read_history (run f evs) = take 20 (rev (List.map_filter (entry_of f) evs))"
    unfolding run_def using foldl_saves [of evs None f] by (simp add: read_history_def)
qed

theorem history_capped_newest_first_witness:
  "length (read_history (None :: nat storage)) \<le> 20
   \<and> ClearHistory \<notin> set (map (\<lambda>i. ReactSave (int i) \<lparr>score = i, total = 30, percentage = 0\<rparr>) [0..<22])
   \<and> read_history (fetchResults show_int 7 (Some \<lparr>score = 1, total = 2, percentage = 50\<rparr>) (None :: nat storage))
        = [\<lparr>score = 1, total = 2, percentage = 50, date = js ''7'', duration = js ''N/A''\<rparr>]
   \<and> map score (read_history (run show_int
         (map (\<lambda>i. ReactSave (int i) \<lparr>score = i, total = 30, percentage = 0\<rparr>) [0..<22])))
        = rev [2..<22]"
proof -
  let ?evs = "map (\<lambda>i. ReactSave (int i) \<lparr>score = i, total = 30, percentage = 0::nat\<rparr>) [0..<22]"
  have h: "length (read_history (None :: nat storage)) \<le> 20"
    by (simp add: read_history_def)
  have c: "ClearHistory \<notin> set ?evs" by auto
  have s7: "show_int 7 = js ''7''"
    by (simp add: show_int_def show_nat.simps js_def)
  from history_capped_newest_first [of None show_int None 0 7 "\<lparr>score = 1, total = 2, percentage = 50\<rparr>" ?evs] h c
  have 1: "read_history (fetchResults show_int 7 (Some \<lparr>score = 1, total = 2, percentage = 50\<rparr>) (None :: nat storage))
        = take 20 (react_entry show_int 7 \<lparr>score = 1, total = 2, percentage = 50\<rparr> # read_history None)"
   and 2: "read_history (run show_int ?evs) = take 20 (rev (List.map_filter (entry_of show_int) ?evs))"
    by blast+
  have mf: "List.map_filter (entry_of show_int) ?evs
      = map (\<lambda>i. react_entry show_int (int i) \<lparr>score = i, total = 30, percentage = 0\<rparr>) [0..<22]"
    by (simp add: List.map_filter_def comp_def)
  have "map score (read_history (run show_int ?evs)) = take 20 (rev [0..<22])"
    unfolding 2 mf by (simp add: take_map rev_map react_entry_def comp_def)
  also have "\<dots> = rev [2..<22]" by (simp add: upt_rec)
  finally have 3: "map score (read_history (run show_int ?evs)) = rev [2..<22]" .
  from 1 have 4: "read_history (fetchResults show_int 7 (Some \<lparr>score = 1, total = 2, percentage = 50\<rparr>) (None :: nat storage))
        = [\<lparr>score = 1, total = 2, percentage = 50, date = js ''7'', duration = js ''N/A''\<rparr>]"
    by (simp add: read_history_def react_entry_def s7)
  from h c 3 4 show ?thesis by blast
qed


text \<open>
  Claim C8. Every history entry written on quiz completion, by either frontend, is the
  first entry of the stored log and has exactly the fields \<open>date\<close>, \<open>score\<close>,
  \<open>total\<close>, \<open>percentage\<close> and \<open>duration\<close>: \<open>date\<close> is the platform's
  \<open>toISOString\<close> rendering of the clock reading taken at the save, and \<open>score\<close>,
  \<open>total\<close> and \<open>percentage\<close> are the payload's values, unchanged. The legacy frontend
  computes \<open>duration\<close> from the quiz start time; the React frontend writes \<open>N/A\<close>.
\<close>

theorem history_entry_fields:
  "read_history (saveQuizToHistory f q n d data st) \<noteq> []
   \<and> hd (read_history (saveQuizToHistory f q n d data st))
       = \<lparr>score = score data, total = total data, percentage = percentage data,
          date = f d, duration = duration (static_entry f q n d data)\<rparr>
   \<and> read_history (fetchResults f d (Some data) st) \<noteq> []
   \<and> hd (read_history (fetchResults f d (Some data) st))
       = \<lparr>score = score data, total = total data, percentage = percentage data,
          date = f d, duration = js ''N/A''\<rparr>"
proof (intro conjI)
  have s: "static_entry f q n d data
       = \<lparr>score = score data, total = total data, percentage = percentage data,
          date = f d, duration = duration (static_entry f q n d data)\<rparr>"
    by (simp add: static_entry_def Let_def)
  show "read_history (saveQuizToHistory f q n d data st) \<noteq> []"
    unfolding read_saveQuizToHistory by (rule cap_not_Nil)
  show "hd (read_history (saveQuizToHistory f q n d data st))
       = \<lparr>score = score data, total = total data, percentage = percentage data,
          date = f d, duration = duration (static_entry f q n d data)\<rparr>"
    unfolding read_saveQuizToHistory cap_hd by (rule s)
  show "read_history (fetchResults f d (Some data) st) \<noteq> []"
    unfolding read_fetchResults by (rule cap_not_Nil)
  show "hd (read_history (fetchResults f d (Some data) st))
       = \<lparr>score = score data, total = total data, percentage = percentage data,
          date = f d, duration = js ''N/A''\<rparr>"
    unfolding read_fetchResults cap_hd by (simp add: react_entry_def)
qed


text \<open>
  Claim C10. The legacy \<open>showResults\<close> and the React \<open>ResultsScreen\<close> choose the same
  performance message for every percentage value, and it is the message of the threshold
  table: \<open>Excellent work!\<close> from 90, \<open>Good job!\<close> from 70 and below 90,
  \<open>Not bad! Keep practicing.\<close> from 50 and below 70, and the keep-studying message
  otherwise (also for a percentage that is not a number).
\<close>

theorem performance_messages_equal:
  "fst (ResultsScreen_message data) = showResults_message data
   \<and> showResults_message data = message_by_threshold (percentage data)"
  by (cases "percentage data")
     (auto simp: ResultsScreen_message_def showResults_message_def message_by_threshold_def)


section \<open>Claims about the parser and the session engine\<close>

text \<open>
  Claim C3. For every raw text in which at least one question block fails structural
  validation, \<open>parse\<close> returns a single \<open>ParseError\<close> and no question record: the error
  carries the 1-based index of a failing block (the first one) and the rule that block
  fails. Conversely a returned deck is never partial: it has one record per block, each
  the result of validating that block, in order.
\<close>

theorem parse_atomic:
  "(i < length (blocks raw) \<and> parse_block (blocks raw ! i) = Inl r \<longrightarrow>
      (\<exists>k r'. parse raw = Inl \<lparr>blockIndex = Suc k, reason = r'\<rparr>
         \<and> k \<le> i \<and> parse_block (blocks raw ! k) = Inl r'
         \<and> (\<forall>j<k. \<exists>q. parse_block (blocks raw ! j) = Inr q)))
   \<and> (parse raw = Inr qs \<longrightarrow>
        qs \<noteq> [] \<and> length qs = length (blocks raw)
        \<and> (\<forall>j<length (blocks raw). parse_block (blocks raw ! j) = Inr (qs ! j)))"
proof (intro conjI impI)
  assume a: "i < length (blocks raw) \<and> parse_block (blocks raw ! i) = Inl r"
  then have ne: "blocks raw \<noteq> []" by auto
  from a parse_blocks_fail [of i "blocks raw" r 1]
  show "\<exists>k r'. parse raw = Inl \<lparr>blockIndex = Suc k, reason = r'\<rparr>
         \<and> k \<le> i \<and> parse_block (blocks raw ! k) = Inl r'
         \<and> (\<forall>j<k. \<exists>q. parse_block (blocks raw ! j) = Inr q)"
    using ne by (simp add: parse_def)
next
  assume p: "parse raw = Inr qs"
  then have ne: "blocks raw \<noteq> []" by (auto simp: parse_def split: if_splits)
  with p have pb: "parse_blocks 1 (blocks raw) = Inr qs" by (simp add: parse_def)
  from parse_blocks_complete [OF pb]
  have c: "length qs = length (blocks raw)"
      "\<forall>j<length (blocks raw). parse_block (blocks raw ! j) = Inr (qs ! j)" by auto
  from c(1) ne show "qs \<noteq> []" by auto
  from c show "length qs = length (blocks raw)" by simp
  from c show "\<forall>j<length (blocks raw). parse_block (blocks raw ! j) = Inr (qs ! j)" by simp
qed

theorem parse_atomic_witness:
  "1 < length (blocks second_block_without_answer)
   \<and> parse_block (blocks second_block_without_answer ! 1) = Inl MissingAnswerMarker
   \<and> parse second_block_without_answer = Inl \<lparr>blockIndex = 2, reason = MissingAnswerMarker\<rparr>
   \<and> parse two_blocks =
        Inr [\<lparr>prompt_text = ''1+1?'',
               choices = [(A, ''1''), (B, ''2''), (C, ''3''), (D, ''4'')], correctLetter = B\<rparr>,
             \<lparr>prompt_text = ''2+2?'',
               choices = [(A, ''4''), (B, ''2''), (C, ''3''), (D, ''1'')], correctLetter = A\<rparr>]
   \<and> length (blocks two_blocks) = 2"
proof -
  let ?raw = second_block_without_answer
  have bl: "blocks ?raw =
      [''1+1?\"\"\"CHOICES\"\"\"A: 1\<newline>B: 2\<newline>C: 3\<newline>D: 4\<newline>\"\"\"ANSWER\"\"\"B\<newline>'',
       ''2+2?\"\"\"CHOICES\"\"\"A: 4\<newline>B: 2\<newline>C: 3\<newline>D: 1'']"
    by (simp add: second_block_without_answer_def parser_eval)
  have len: "1 < length (blocks ?raw)" unfolding bl by simp
  have b0: "\<exists>q. parse_block (blocks ?raw ! 0) = Inr q"
    unfolding bl by (simp add: parser_eval)
  have b1: "parse_block (blocks ?raw ! 1) = Inl MissingAnswerMarker"
    unfolding bl by (simp add: parser_eval)
  from parse_atomic [of 1 ?raw MissingAnswerMarker "[]"] len b1
  obtain k r' where k: "parse ?raw = Inl \<lparr>blockIndex = Suc k, reason = r'\<rparr>"
      "k \<le> 1" "parse_block (blocks ?raw ! k) = Inl r'"
    by blast
  from k(2) have "k = 0 \<or> k = 1" by auto
  with k(3) b0 b1 have "k = 1 \<and> r' = MissingAnswerMarker" by auto
  with k(1) have err: "parse ?raw = Inl \<lparr>blockIndex = 2, reason = MissingAnswerMarker\<rparr>"
    by simp
  have ok: "parse two_blocks =
        Inr [\<lparr>prompt_text = ''1+1?'',
               choices = [(A, ''1''), (B, ''2''), (C, ''3''), (D, ''4'')], correctLetter = B\<rparr>,
             \<lparr>prompt_text = ''2+2?'',
               choices = [(A, ''4''), (B, ''2''), (C, ''3''), (D, ''1'')], correctLetter = A\<rparr>]"
    by (simp add: two_blocks_def parser_eval)
  have "parse two_blocks = Inr qs \<longrightarrow> length qs = length (blocks two_blocks)" for qs
    using parse_atomic [of 0 two_blocks EmptyDeck qs] by blast
  from this [rule_format, OF ok] have "length (blocks two_blocks) = 2" by simp
  with len b1 err ok show ?thesis by blast
qed

text \<open>
  Claim C4. For every session in progress whose current question has already been
  answered, \<open>submitAnswer\<close> fails with \<open>AlreadyAnsweredError\<close>. A successful
  \<open>submitAnswer\<close> leaves the session in such a state, so a second call before
  \<open>advance\<close> fails, whatever the letter; and of any number of calls on the same
  question at most one succeeds.
\<close>

theorem double_submit_rejected:
  "(state s = InProgress i sc True \<longrightarrow> submitAnswer l s = Inl AlreadyAnsweredError)
   \<and> (submitAnswer l s = Inr (r, s') \<longrightarrow> submitAnswer l' s' = Inl AlreadyAnsweredError)
   \<and> fst (submit_repeatedly ls s) \<le> 1"
proof (intro conjI impI)
  show "submitAnswer l s = Inl AlreadyAnsweredError" if "state s = InProgress i sc True"
    using that by (rule submitAnswer_answered)
  show "submitAnswer l' s' = Inl AlreadyAnsweredError" if "submitAnswer l s = Inr (r, s')"
  proof -
    from that obtain j n where "state s' = InProgress j n True"
      using submitAnswer_marks by blast
    then show ?thesis by (rule submitAnswer_answered)
  qed
  show "fst (submit_repeatedly ls s) \<le> 1" by (rule submit_repeatedly_le_1)
qed

theorem double_submit_rejected_witness:
  "state \<lparr>deck = [\<lparr>prompt_text = ''q'', choices = [], correctLetter = B\<rparr>], state = InProgress 0 1 True\<rparr>
     = InProgress 0 1 True
   \<and> submitAnswer B \<lparr>deck = [\<lparr>prompt_text = ''q'', choices = [], correctLetter = B\<rparr>], state = InProgress 0 1 True\<rparr>
       = Inl AlreadyAnsweredError
   \<and> submitAnswer B (new_QuizSession [\<lparr>prompt_text = ''q'', choices = [], correctLetter = B\<rparr>])
       = Inr (\<lparr>correct = True, correct_letter = B\<rparr>,
              \<lparr>deck = [\<lparr>prompt_text = ''q'', choices = [], correctLetter = B\<rparr>], state = InProgress 0 1 True\<rparr>)
   \<and> submitAnswer C \<lparr>deck = [\<lparr>prompt_text = ''q'', choices = [], correctLetter = B\<rparr>], state = InProgress 0 1 True\<rparr>
       = Inl AlreadyAnsweredError"
proof -
  let ?q = "\<lparr>prompt_text = ''q'', choices = [], correctLetter = B\<rparr>"
  let ?s' = "\<lparr>deck = [?q], state = InProgress 0 1 True\<rparr>"
  have st: "state ?s' = InProgress 0 1 True" by simp
  have first: "submitAnswer B (new_QuizSession [?q]) = Inr (\<lparr>correct = True, correct_letter = B\<rparr>, ?s')"
    by (simp add: submitAnswer_def new_QuizSession_def)
  from double_submit_rejected [of ?s' 0 1 B "\<lparr>correct = True, correct_letter = B\<rparr>" ?s' B "[]"] st
  have a: "submitAnswer B ?s' = Inl AlreadyAnsweredError" by blast
  from double_submit_rejected [of "new_QuizSession [?q]" 0 0 B "\<lparr>correct = True, correct_letter = B\<rparr>" ?s' C "[]"] first
  have b: "submitAnswer C ?s' = Inl AlreadyAnsweredError" by blast
  from st a first b show ?thesis by blast
qed

text \<open>
  Claim C6. In the \<open>Completed\<close> state, for every non-empty deck and every score,
  \<open>results\<close> returns the score, the length of the deck as total, and as percentage the
  whole number nearest to \<open>100 * score / total\<close>, with ties rounded up: the percentage
  \<open>p\<close> satisfies \<open>p - 1/2 \<le> 100 * score / total < p + 1/2\<close>, and it is
  \<open>(200 * score + total) div (2 * total)\<close>.
\<close>

theorem results_percentage_half_up:
  assumes "state s = Completed sc tot" and "deck s \<noteq> []"
  shows "\<exists>p. results s = Inr \<lparr>score = int sc, total = int (length (deck s)), percentage = p\<rparr>
     \<and> of_int p - 1 / 2 \<le> (100 * of_nat sc / of_nat (length (deck s)) :: rat)
     \<and> (100 * of_nat sc / of_nat (length (deck s)) :: rat) < of_int p + 1 / 2
     \<and> p = (200 * int sc + int (length (deck s))) div (2 * int (length (deck s)))"
proof -
  let ?x = "100 * of_nat sc / of_nat (length (deck s)) :: rat"
  from assms(2) have n: "0 < length (deck s)" by simp
  have "results s = Inr \<lparr>score = int sc, total = int (length (deck s)),
                          percentage = round_half_up ?x\<rparr>"
    using assms(1) by (simp add: results_def)
  moreover note round_half_up_nearest [of ?x] round_half_up_div [OF n, of sc]
  ultimately show ?thesis by blast
qed

theorem results_percentage_half_up_witness:
  "state \<lparr>deck = replicate 8 \<lparr>prompt_text = ''q'', choices = [], correctLetter = A\<rparr>, state = Completed 1 8\<rparr>
     = Completed 1 8
   \<and> deck \<lparr>deck = replicate 8 \<lparr>prompt_text = ''q'', choices = [], correctLetter = A\<rparr>, state = Completed 1 8\<rparr> \<noteq> []
   \<and> results \<lparr>deck = replicate 8 \<lparr>prompt_text = ''q'', choices = [], correctLetter = A\<rparr>, state = Completed 1 8\<rparr>
       = Inr \<lparr>score = 1, total = 8, percentage = 13\<rparr>"
proof -
  let ?s = "\<lparr>deck = replicate 8 \<lparr>prompt_text = ''q'', choices = [], correctLetter = A\<rparr>, state = Completed 1 8\<rparr>"
  have st: "state ?s = Completed 1 8" by simp
  have d: "deck ?s \<noteq> []" by simp
  from results_percentage_half_up [OF st d]
  have "results ?s = Inr \<lparr>score = 1, total = 8, percentage = 13\<rparr>" by auto
  with st d show ?thesis by blast
qed


end
